theory Spec2Isabelle
  imports Main
begin

section \<open>Link utilities (enhanced-link-utils.ts)\<close>

text \<open>
  A JavaScript string is a sequence of code units; it is modelled as a \<open>string\<close>,
  a list of characters. \<open>String.prototype.startsWith\<close> with one argument compares
  the leading code units of the receiver with the search string.
\<close>

definition startsWith :: "string \<Rightarrow> string \<Rightarrow> bool" where
  "startsWith s searchString = (take (length searchString) s = searchString)"

text \<open>
  \<^verbatim>\<open>url.startsWith('http') || url.startsWith('//') ? url : `http://${url}`\<close>
\<close>

definition extractHref :: "string \<Rightarrow> string" where
  "extractHref url =
     (if startsWith url ''http'' \<or> startsWith url ''//'' then url else ''http://'' @ url)"

text \<open>
  A JavaScript \<open>Set\<close> keeps its members in insertion order and holds no member twice;
  it is modelled as the list of its members, which is \<open>distinct\<close> for every value
  the program can build. \<open>size\<close> is the number of members (suffixed: \<open>size\<close> is a
  constant of HOL), \<open>has\<close> is membership, and \<open>for (const value of setOne)\<close> walks
  the list front to back.
\<close>

definition size_of :: "'a list \<Rightarrow> nat" where
  "size_of s = length s"

definition has :: "'a list \<Rightarrow> 'a \<Rightarrow> bool" where
  "has s v = (v \<in> set s)"

text \<open>The \<open>for\<close> loop of \<open>isSetEqual\<close>: it returns false at the first member of
  \<open>setOne\<close> that \<open>setTwo\<close> lacks, and true when the members are exhausted.\<close>

fun isSetEqual_loop :: "'a list \<Rightarrow> 'a list \<Rightarrow> bool" where
  "isSetEqual_loop [] setTwo = True"
| "isSetEqual_loop (v # rest) setTwo =
     (if \<not> has setTwo v then False else isSetEqual_loop rest setTwo)"

definition isSetEqual :: "'a list \<Rightarrow> 'a list \<Rightarrow> bool" where
  "isSetEqual setOne setTwo =
     (if size_of setOne \<noteq> size_of setTwo then False else isSetEqual_loop setOne setTwo)"

section \<open>The manager store\<close>

text \<open>
  The values the two extensions put into the manager store are references: the
  function \<open>ssrTransformer\<close> made by \<open>onInitialize\<close>, the object \<open>helpers\<close>
  made by \<open>onView\<close>, and the fresh empty objects of \<open>object()\<close>. A reference is
  modelled by a tag; what it refers to is read from the state at the time of use, so
  that a later mutation of the array or object behind it is seen through the store.
\<close>

datatype store_value = SSRTransformerClosure | HelpersObject | EmptyObject

record manager =
  store :: "string \<rightharpoonup> store_value"

text \<open>
  Modelled from the spec: \<open>setStoreKey\<close> and \<open>getStoreKey\<close> belong to the extension
  manager, which is not among the sources. The specification describes the store as a
  shared lookup keyed by a fixed name; a key that was never set reads as
  \<open>undefined\<close>, here \<open>None\<close>.
\<close>

definition setStoreKey :: "string \<Rightarrow> store_value \<Rightarrow> 'a manager_scheme \<Rightarrow> 'a manager_scheme" where
  "setStoreKey key v m = m\<lparr>store := (store m)(key \<mapsto> v)\<rparr>"

definition getStoreKey :: "'a manager_scheme \<Rightarrow> string \<Rightarrow> store_value option" where
  "getStoreKey m key = store m key"

section \<open>The SSR extension (ReactSSRExtension)\<close>

text \<open>
  A function of the host program may change state outside the pipeline and may throw.
  It is modelled as a function of that outside state \<open>'w\<close> which returns the new
  state together with either the thrown value (\<open>Inl\<close>) or the result (\<open>Inr\<close>).
  An \<open>SSRTransformer\<close> maps an element to an element in this way.
\<close>

type_synonym ('w, 'err, 'el) SSRTransformer = "'el \<Rightarrow> 'w \<Rightarrow> ('err + 'el) \<times> 'w"

text \<open>
  What \<open>forEachExtension\<close> reads of an extension: the optional factory
  \<open>extension.parameter.createSSRTransformer\<close> and the optional flag
  \<open>extension.settings.exclude.reactSSR\<close> (\<open>boolean | undefined\<close>).
\<close>

record ('w, 'err, 'el, 'p) ssr_extension =
  createSSRTransformer :: "('p \<Rightarrow> 'w \<Rightarrow> ('err + ('w, 'err, 'el) SSRTransformer) \<times> 'w) option"
  exclude_reactSSR :: "bool option"

text \<open>JavaScript truthiness of a value of type \<open>boolean | undefined\<close>.\<close>

definition truthy :: "bool option \<Rightarrow> bool" where
  "truthy b = (b = Some True)"

text \<open>
  The state seen by the handlers of one call of \<open>onInitialize\<close>: the manager store,
  the state outside the pipeline, and the array \<open>ssrTransformers\<close> which the closure
  \<open>ssrTransformer\<close> and the handler \<open>forEachExtension\<close> share.
\<close>

record ('w, 'err, 'el) ssr = manager +
  world :: 'w
  ssrTransformers :: "('w, 'err, 'el) SSRTransformer list"

text \<open>
  The loop of \<open>ssrTransformer\<close>: \<open>element = transformer(element)\<close> for each
  transformer of the array in turn. A transformer that throws ends the loop, since
  nothing catches.
\<close>

fun ssrTransformer_loop ::
  "('w, 'err, 'el) SSRTransformer list \<Rightarrow> 'el \<Rightarrow> 'w \<Rightarrow> ('err + 'el) \<times> 'w" where
  "ssrTransformer_loop [] element w = (Inr element, w)"
| "ssrTransformer_loop (transformer # rest) element w =
     (case transformer element w of
        (Inl e, w') \<Rightarrow> (Inl e, w')
      | (Inr element', w') \<Rightarrow> ssrTransformer_loop rest element' w')"

text \<open>The closure \<open>ssrTransformer\<close>: it reads the array when it is called.\<close>

definition ssrTransformer ::
  "('w, 'err, 'el) ssr \<Rightarrow> 'el \<Rightarrow> ('err + 'el) \<times> ('w, 'err, 'el) ssr" where
  "ssrTransformer st initialElement =
     (case ssrTransformer_loop (ssrTransformers st) initialElement (world st) of
        (r, w') \<Rightarrow> (r, st\<lparr>world := w'\<rparr>))"

text \<open>The handler \<open>afterExtensionLoop\<close> of \<open>onCreate\<close> stores two fresh empty
  objects.\<close>

definition onCreate_afterExtensionLoop :: "'a manager_scheme \<Rightarrow> 'a manager_scheme" where
  "onCreate_afterExtensionLoop m =
     setStoreKey ''componentOptions'' EmptyObject (setStoreKey ''components'' EmptyObject m)"

text \<open>\<open>onInitialize\<close> starts with \<open>const ssrTransformers = []\<close>.\<close>

definition onInitialize :: "(string \<rightharpoonup> store_value) \<Rightarrow> 'w \<Rightarrow> ('w, 'err, 'el) ssr" where
  "onInitialize s w = \<lparr>store = s, world = w, ssrTransformers = []\<rparr>"

text \<open>
  The handler \<open>forEachExtension\<close> of \<open>onInitialize\<close>. The manager's
  \<open>getParameter\<close> is not among the sources and is taken as a parameter.
\<close>

definition onInitialize_forEachExtension ::
  "(('w, 'err, 'el, 'p) ssr_extension \<Rightarrow> 'p) \<Rightarrow> ('w, 'err, 'el, 'p) ssr_extension \<Rightarrow>
   ('w, 'err, 'el) ssr \<Rightarrow> ('err + unit) \<times> ('w, 'err, 'el) ssr" where
  "onInitialize_forEachExtension getParameter extension st =
     (case createSSRTransformer extension of
        None \<Rightarrow> (Inr (), st)
      | Some create \<Rightarrow>
          if truthy (exclude_reactSSR extension) then (Inr (), st)
          else (case create (getParameter extension) (world st) of
                  (Inl e, w') \<Rightarrow> (Inl e, st\<lparr>world := w'\<rparr>)
                | (Inr transformer, w') \<Rightarrow>
                    (Inr (), st\<lparr>world := w',
                                ssrTransformers := ssrTransformers st @ [transformer]\<rparr>)))"

text \<open>The handler \<open>afterExtensionLoop\<close> of \<open>onInitialize\<close>.\<close>

definition onInitialize_afterExtensionLoop :: "('w, 'err, 'el) ssr \<Rightarrow> ('w, 'err, 'el) ssr" where
  "onInitialize_afterExtensionLoop st = setStoreKey ''ssrTransformer'' SSRTransformerClosure st"

text \<open>
  Modelled from the spec: the loop of the extension manager, which is not among the
  sources. The specification has the registry populated by iterating the registered
  extensions exactly once, in their registration order, and finalized before the pass
  ends; a handler that throws aborts the pass.
\<close>

fun extension_loop ::
  "(('w, 'err, 'el, 'p) ssr_extension \<Rightarrow> 'p) \<Rightarrow> ('w, 'err, 'el, 'p) ssr_extension list \<Rightarrow>
   ('w, 'err, 'el) ssr \<Rightarrow> ('err + unit) \<times> ('w, 'err, 'el) ssr" where
  "extension_loop getParameter [] st = (Inr (), st)"
| "extension_loop getParameter (extension # rest) st =
     (case onInitialize_forEachExtension getParameter extension st of
        (Inl e, st') \<Rightarrow> (Inl e, st')
      | (Inr u, st') \<Rightarrow> extension_loop getParameter rest st')"

definition initialization_pass ::
  "(('w, 'err, 'el, 'p) ssr_extension \<Rightarrow> 'p) \<Rightarrow> ('w, 'err, 'el, 'p) ssr_extension list \<Rightarrow>
   (string \<rightharpoonup> store_value) \<Rightarrow> 'w \<Rightarrow> ('err + unit) \<times> ('w, 'err, 'el) ssr" where
  "initialization_pass getParameter extensions s w =
     (case extension_loop getParameter extensions (onInitialize s w) of
        (Inl e, st) \<Rightarrow> (Inl e, st)
      | (Inr u, st) \<Rightarrow> (Inr (), onInitialize_afterExtensionLoop st))"

text \<open>
  Modelled from the spec: a consumer's \<open>apply(composedTransformer, input)\<close>. It reads
  the key \<open>ssrTransformer\<close> of the store and calls the function found there; the
  specification says nothing of a consumer that finds no function, which is \<open>None\<close>.
\<close>

definition apply_ssrTransformer ::
  "('w, 'err, 'el) ssr \<Rightarrow> 'el \<Rightarrow> (('err + 'el) \<times> ('w, 'err, 'el) ssr) option" where
  "apply_ssrTransformer st input =
     (case getStoreKey st ''ssrTransformer'' of
        Some SSRTransformerClosure \<Rightarrow> Some (ssrTransformer st input)
      | _ \<Rightarrow> None)"

text \<open>
  The specification's own wording of the composed transformer, for comparison with the
  loop: fold the registry over the input, left to right. A step applies the next
  transformer to the element reached so far and passes a thrown value on.
\<close>

definition fold_step ::
  "('err + 'el) \<times> 'w \<Rightarrow> ('w, 'err, 'el) SSRTransformer \<Rightarrow> ('err + 'el) \<times> 'w" where
  "fold_step acc t = (case acc of (Inl e, w) \<Rightarrow> (Inl e, w) | (Inr x, w) \<Rightarrow> t x w)"

definition spec_fold_registry ::
  "('w, 'err, 'el) SSRTransformer list \<Rightarrow> 'el \<Rightarrow> 'w \<Rightarrow> ('err + 'el) \<times> 'w" where
  "spec_fold_registry registry x w = foldl fold_step (Inr x, w) registry"

text \<open>An extension takes part in the SSR pipeline when it has a factory and is not
  excluded: the negation of the guard of \<open>forEachExtension\<close>.\<close>

definition contributes :: "('w, 'err, 'el, 'p) ssr_extension \<Rightarrow> bool" where
  "contributes extension =
     (\<not> (createSSRTransformer extension = None \<or> truthy (exclude_reactSSR extension)))"

text \<open>A transformer without effects, given by a function on elements.\<close>

definition pure_transformer :: "('el \<Rightarrow> 'el) \<Rightarrow> ('w, 'err, 'el) SSRTransformer" where
  "pure_transformer f = (\<lambda>element w. (Inr (f element), w))"

text \<open>
  An extension registers the transformer \<open>t\<close> when it takes part and its factory,
  called with the parameter the manager hands it, returns \<open>t\<close> and does nothing else.
\<close>

definition registers ::
  "(('w, 'err, 'el, 'p) ssr_extension \<Rightarrow> 'p) \<Rightarrow> ('w, 'err, 'el, 'p) ssr_extension \<Rightarrow>
   ('w, 'err, 'el) SSRTransformer \<Rightarrow> bool" where
  "registers getParameter extension t =
     ((\<exists>create. createSSRTransformer extension = Some create
         \<and> (\<forall>w. create (getParameter extension) w = (Inr t, w)))
      \<and> \<not> truthy (exclude_reactSSR extension))"

text \<open>Values for the examples: a factory that returns \<open>t\<close> and does nothing else, a
  factory that returns \<open>t\<close> and counts its calls in the outside state, a transformer
  that throws, and a \<open>getParameter\<close> with nothing to hand over.\<close>

definition plain_factory ::
  "('w, 'err, 'el) SSRTransformer \<Rightarrow> 'p \<Rightarrow> 'w \<Rightarrow> ('err + ('w, 'err, 'el) SSRTransformer) \<times> 'w" where
  "plain_factory t parameter w = (Inr t, w)"

definition counting_factory ::
  "(nat, 'err, 'el) SSRTransformer \<Rightarrow> 'p \<Rightarrow> nat \<Rightarrow> ('err + (nat, 'err, 'el) SSRTransformer) \<times> nat" where
  "counting_factory t parameter w = (Inr t, Suc w)"

definition throwing_transformer :: "'err \<Rightarrow> (nat, 'err, 'el) SSRTransformer" where
  "throwing_transformer e element w = (Inl e, Suc w)"

definition no_parameter :: "('w, 'err, 'el, unit) ssr_extension \<Rightarrow> unit" where
  "no_parameter extension = ()"

section \<open>The helpers extension (HelpersExtension)\<close>

datatype ErrorConstant = DUPLICATE_HELPER_NAMES | HELPERS_CALLED_IN_OUTER_SCOPE

text \<open>An error of the framework: its code and, for a naming conflict, the name.\<close>

datatype remirror_error = RemirrorError ErrorConstant "string option"

text \<open>
  Modelled from the spec: \<open>invariant\<close> of core-helpers is not among the sources. It
  throws an error with the given code when its condition is falsy and returns
  otherwise.
\<close>

definition invariant :: "bool \<Rightarrow> ErrorConstant \<Rightarrow> remirror_error + unit" where
  "invariant condition c = (if condition then Inr () else Inl (RemirrorError c None))"

text \<open>
  Modelled from the spec: \<open>throwIfNameNotUnique\<close> of the helpers module is not among
  the sources. The specification has a second contribution under a name already taken
  fail with a duplicate-name error that identifies the colliding name; the set it is
  given is the only record of the names taken so far, so a name that passes is added
  to it.
\<close>

definition throwIfNameNotUnique ::
  "string \<Rightarrow> string set \<Rightarrow> ErrorConstant \<Rightarrow> remirror_error + string set" where
  "throwIfNameNotUnique name s c =
     (if name \<in> s then Inl (RemirrorError c (Some name)) else Inr (insert name s))"

text \<open>
  What \<open>forEachExtension\<close> of \<open>onView\<close> reads of an extension: the optional
  \<open>createHelpers\<close>. The object it returns is given by its \<open>entries\<close>, the list of
  its own properties as pairs of name and value.
\<close>

record 'h helpers_extension =
  createHelpers :: "(unit \<Rightarrow> (string \<times> 'h) list) option"

text \<open>
  The state seen by the handlers of one call of \<open>onView\<close>: the manager store, the
  object \<open>helpers\<close> and the set \<open>names\<close>.
\<close>

record 'h view = manager +
  helpers :: "string \<rightharpoonup> 'h"
  names :: "string set"

definition onView :: "(string \<rightharpoonup> store_value) \<Rightarrow> 'h view" where
  "onView s = \<lparr>store = s, helpers = Map.empty, names = {}\<rparr>"

text \<open>The loop over \<open>entries(extensionHelpers)\<close>; a throw leaves the helpers added
  before it in place.\<close>

fun entries_loop ::
  "(string \<times> 'h) list \<Rightarrow> 'h view \<Rightarrow> (remirror_error + unit) \<times> 'h view" where
  "entries_loop [] st = (Inr (), st)"
| "entries_loop ((name, helper) # rest) st =
     (case throwIfNameNotUnique name (names st) DUPLICATE_HELPER_NAMES of
        Inl e \<Rightarrow> (Inl e, st)
      | Inr names' \<Rightarrow>
          entries_loop rest (st\<lparr>names := names', helpers := (helpers st)(name \<mapsto> helper)\<rparr>))"

definition onView_forEachExtension ::
  "'h helpers_extension \<Rightarrow> 'h view \<Rightarrow> (remirror_error + unit) \<times> 'h view" where
  "onView_forEachExtension extension st =
     (case createHelpers extension of
        None \<Rightarrow> (Inr (), st)
      | Some create \<Rightarrow> entries_loop (create ()) st)"

definition onView_afterExtensionLoop :: "'h view \<Rightarrow> 'h view" where
  "onView_afterExtensionLoop st = setStoreKey ''helpers'' HelpersObject st"

text \<open>
  Modelled from the spec: the loop of the extension manager over the extensions for
  the handlers of \<open>onView\<close>, in registration order; a handler that throws aborts it.
\<close>

fun view_loop ::
  "'h helpers_extension list \<Rightarrow> 'h view \<Rightarrow> (remirror_error + unit) \<times> 'h view" where
  "view_loop [] st = (Inr (), st)"
| "view_loop (extension # rest) st =
     (case onView_forEachExtension extension st of
        (Inl e, st') \<Rightarrow> (Inl e, st')
      | (Inr u, st') \<Rightarrow> view_loop rest st')"

definition view_pass ::
  "'h helpers_extension list \<Rightarrow> (string \<rightharpoonup> store_value) \<Rightarrow> (remirror_error + unit) \<times> 'h view" where
  "view_pass extensions s =
     (case view_loop extensions (onView s) of
        (Inl e, st) \<Rightarrow> (Inl e, st)
      | (Inr u, st) \<Rightarrow> (Inr (), onView_afterExtensionLoop st))"

text \<open>All helpers the extensions contribute, in the order the loops meet them.\<close>

definition contributions :: "'h helpers_extension list \<Rightarrow> (string \<times> 'h) list" where
  "contributions extensions =
     concat (map (\<lambda>extension. case createHelpers extension of
                                 None \<Rightarrow> [] | Some create \<Rightarrow> create ()) extensions)"

text \<open>
  JavaScript truthiness of what \<open>getStoreKey\<close> returns: a value in the store is an
  object or a function and so truthy; \<open>undefined\<close>, for a key never set, is falsy.
\<close>

definition truthy_value :: "store_value option \<Rightarrow> bool" where
  "truthy_value v = (case v of None \<Rightarrow> False | Some object \<Rightarrow> True)"

text \<open>
  The function that \<open>onCreate\<close> installs as the manager method \<open>helpers\<close>. It
  returns the value it read from the store.
\<close>

definition helpers_method :: "'a manager_scheme \<Rightarrow> remirror_error + store_value option" where
  "helpers_method st =
     (let helpers' = getStoreKey st ''helpers'' in
      case invariant (truthy_value helpers') HELPERS_CALLED_IN_OUTER_SCOPE of
        Inl e \<Rightarrow> Inl e
      | Inr u \<Rightarrow> Inr helpers')"

section \<open>Properties of the link utilities\<close>

lemma startsWith_iff: "startsWith s p \<longleftrightarrow> (\<exists>r. s = p @ r)"
proof
  assume "startsWith s p"
  then have "s = p @ drop (length p) s"
    unfolding startsWith_def by (metis append_take_drop_id)
  then show "\<exists>r. s = p @ r" ..
next
  assume "\<exists>r. s = p @ r"
  then show "startsWith s p"
    unfolding startsWith_def by auto
qed

lemma isSetEqual_loop_iff: "isSetEqual_loop xs ys \<longleftrightarrow> set xs \<subseteq> set ys"
  by (induction xs) (auto simp: has_def)

text \<open>
  C8. A url that begins with the scheme prefix \<open>http\<close> or with the protocol-relative
  prefix \<open>//\<close> is returned unchanged; every other url is returned with \<open>http://\<close>
  put in front. The three examples of the specification evaluate as stated. The
  function looks at nothing but the leading characters of its argument.
\<close>

theorem extractHref_spec:
  "extractHref url =
     (if (\<exists>r. url = ''http'' @ r) \<or> (\<exists>r. url = ''//'' @ r) then url else ''http://'' @ url)
   \<and> extractHref ''example.com'' = ''http://example.com''
   \<and> extractHref ''http://example.com'' = ''http://example.com''
   \<and> extractHref ''//cdn.example.com/x'' = ''//cdn.example.com/x''"
proof -
  have general: "extractHref url =
     (if (\<exists>r. url = ''http'' @ r) \<or> (\<exists>r. url = ''//'' @ r) then url else ''http://'' @ url)"
    unfolding extractHref_def startsWith_iff by simp
  have e1: "extractHref ''example.com'' = ''http://example.com''"
    by (simp add: extractHref_def startsWith_def)
  have e2: "extractHref ''http://example.com'' = ''http://example.com''"
    by (simp add: extractHref_def startsWith_def)
  have e3: "extractHref ''//cdn.example.com/x'' = ''//cdn.example.com/x''"
    by (simp add: extractHref_def startsWith_def)
  from general e1 e2 e3 show ?thesis by blast
qed

text \<open>
  C10. The scheme check is a test on the four characters \<open>http\<close> and nothing more:
  any string that begins with them comes back unchanged, whether or not it is a URL
  (\<open>httpfoo\<close>, \<open>httpx.com\<close>, \<open>https://...\<close>), and the result of \<open>extractHref\<close>
  always begins with \<open>http\<close> or with \<open>//\<close>.
\<close>

theorem extractHref_http_prefix:
  "extractHref (''http'' @ rest) = ''http'' @ rest
   \<and> extractHref ''httpfoo'' = ''httpfoo''
   \<and> extractHref ''httpx.com'' = ''httpx.com''
   \<and> extractHref ''https://example.com'' = ''https://example.com''
   \<and> (startsWith (extractHref url) ''http'' \<or> startsWith (extractHref url) ''//'')"
proof -
  have a: "extractHref (''http'' @ rest) = ''http'' @ rest"
    by (simp add: extractHref_def startsWith_def)
  have b: "extractHref ''httpfoo'' = ''httpfoo''"
    by (simp add: extractHref_def startsWith_def)
  have c: "extractHref ''httpx.com'' = ''httpx.com''"
    by (simp add: extractHref_def startsWith_def)
  have d: "extractHref ''https://example.com'' = ''https://example.com''"
    by (simp add: extractHref_def startsWith_def)
  have e: "startsWith (extractHref url) ''http'' \<or> startsWith (extractHref url) ''//''"
    by (simp add: extractHref_def startsWith_def)
  from a b c d e show ?thesis by blast
qed

text \<open>
  C9. For two sets, \<open>isSetEqual\<close> is true exactly when they have the same members,
  whatever the insertion order: it is false as soon as the sizes differ, and
  otherwise true exactly when every member of the first set is a member of the
  second. The three examples of the specification evaluate as stated.
\<close>

theorem isSetEqual_iff:
  assumes "distinct setOne" and "distinct setTwo"
  shows "(isSetEqual setOne setTwo \<longleftrightarrow> set setOne = set setTwo)
       \<and> (isSetEqual setOne setTwo \<longleftrightarrow>
            size_of setOne = size_of setTwo \<and> (\<forall>v \<in> set setOne. has setTwo v))"
proof -
  have second: "isSetEqual setOne setTwo \<longleftrightarrow>
           size_of setOne = size_of setTwo \<and> (\<forall>v \<in> set setOne. has setTwo v)"
    by (auto simp: isSetEqual_def isSetEqual_loop_iff has_def)
  have first: "isSetEqual setOne setTwo \<longleftrightarrow> set setOne = set setTwo"
  proof
    assume "isSetEqual setOne setTwo"
    with second have len: "length setOne = length setTwo" and sub: "set setOne \<subseteq> set setTwo"
      by (auto simp: size_of_def has_def)
    from len assms have "card (set setOne) = card (set setTwo)"
      by (simp add: distinct_card)
    with sub show "set setOne = set setTwo"
      by (simp add: card_subset_eq)
  next
    assume eq: "set setOne = set setTwo"
    then have "card (set setOne) = card (set setTwo)" by simp
    with assms have "length setOne = length setTwo"
      by (simp add: distinct_card)
    with eq second show "isSetEqual setOne setTwo"
      by (simp add: size_of_def has_def)
  qed
  from first second show ?thesis by blast
qed

theorem isSetEqual_iff_witness:
  "isSetEqual [1, 2, 3 :: int] [3, 2, 1] = True
   \<and> isSetEqual [1, 2 :: int] [1, 2, 3] = False
   \<and> isSetEqual ([] :: int list) [] = True"
proof -
  have s1: "set [1, 2, 3 :: int] = set [3, 2, 1]" by auto
  have s2: "set [1, 2 :: int] \<noteq> set [1, 2, 3]"
  proof
    assume "set [1, 2 :: int] = set [1, 2, 3]"
    then have "(3::int) \<in> set [1, 2]" by simp
    then show False by simp
  qed
  have a: "isSetEqual [1, 2, 3 :: int] [3, 2, 1] = True"
    using isSetEqual_iff [of "[1, 2, 3 :: int]" "[3, 2, 1]"] s1 by simp
  have b: "isSetEqual [1, 2 :: int] [1, 2, 3] = False"
    using isSetEqual_iff [of "[1, 2 :: int]" "[1, 2, 3]"] s2 by simp
  have c: "isSetEqual ([] :: int list) [] = True"
    using isSetEqual_iff [of "[] :: int list" "[]"] by simp
  from a b c show ?thesis by blast
qed

section \<open>Properties of the SSR extension\<close>

lemma ssrTransformer_loop_append:
  "ssrTransformer_loop (xs @ ys) x w =
     (case ssrTransformer_loop xs x w of
        (Inl e, w') \<Rightarrow> (Inl e, w')
      | (Inr y, w') \<Rightarrow> ssrTransformer_loop ys y w')"
  by (induction xs arbitrary: x w) (auto split: prod.splits sum.splits)

lemma foldl_fold_step_Inl: "foldl fold_step (Inl e, w) ts = (Inl e, w)"
  by (induction ts) (auto simp: fold_step_def)

lemma ssrTransformer_loop_eq_fold:
  "ssrTransformer_loop ts x w = spec_fold_registry ts x w"
proof (induction ts arbitrary: x w)
  case Nil
  show ?case by (simp add: spec_fold_registry_def)
next
  case (Cons t ts)
  obtain r w' where tx: "t x w = (r, w')" by (cases "t x w")
  show ?case
  proof (cases r)
    case (Inl e)
    with tx show ?thesis
      by (simp add: spec_fold_registry_def fold_step_def foldl_fold_step_Inl)
  next
    case (Inr y)
    with tx Cons.IH [of y w'] show ?thesis
      by (simp add: spec_fold_registry_def fold_step_def)
  qed
qed

lemma ssrTransformer_loop_pure:
  "ssrTransformer_loop (map pure_transformer fs) x w = (Inr (fold (\<lambda>f. f) fs x), w)"
  by (induction fs arbitrary: x) (auto simp: pure_transformer_def)

lemma forEachExtension_skip:
  "\<not> contributes ext \<Longrightarrow> onInitialize_forEachExtension gp ext st = (Inr (), st)"
  by (auto simp: contributes_def onInitialize_forEachExtension_def split: option.splits)

lemma extension_loop_filter:
  "extension_loop gp (filter contributes exts) st = extension_loop gp exts st"
  by (induction exts arbitrary: st) (auto simp: forEachExtension_skip split: prod.splits sum.splits)

lemma forEachExtension_registers:
  "registers gp ext t \<Longrightarrow>
   onInitialize_forEachExtension gp ext st = (Inr (), st\<lparr>ssrTransformers := ssrTransformers st @ [t]\<rparr>)"
  by (auto simp: registers_def onInitialize_forEachExtension_def)

lemma extension_loop_registers:
  "list_all2 (registers gp) exts ts \<Longrightarrow>
   extension_loop gp exts st = (Inr (), st\<lparr>ssrTransformers := ssrTransformers st @ ts\<rparr>)"
proof (induction exts ts arbitrary: st rule: list_all2_induct)
  case Nil
  show ?case by simp
next
  case (Cons e t es ts)
  then show ?case by (simp add: forEachExtension_registers)
qed

lemma extension_loop_length:
  "extension_loop gp exts st = (Inr u, st') \<Longrightarrow>
   length (ssrTransformers st') = length (ssrTransformers st) + length (filter contributes exts)"
proof (induction exts arbitrary: st)
  case Nil
  then show ?case by simp
next
  case (Cons e es)
  show ?case
  proof (cases "contributes e")
    case False
    with Cons show ?thesis by (simp add: forEachExtension_skip)
  next
    case True
    with Cons.prems obtain st1 where
      step: "onInitialize_forEachExtension gp e st = (Inr (), st1)" and
      rest: "extension_loop gp es st1 = (Inr u, st')"
      by (auto split: prod.splits sum.splits)
    from step True have "length (ssrTransformers st1) = Suc (length (ssrTransformers st))"
      by (auto simp: onInitialize_forEachExtension_def contributes_def
               split: option.splits prod.splits sum.splits if_splits)
    with Cons.IH [OF rest] True show ?thesis by simp
  qed
qed


lemma getStoreKey_after [simp]:
  "getStoreKey (onInitialize_afterExtensionLoop st) ''ssrTransformer'' = Some SSRTransformerClosure"
  by (simp add: onInitialize_afterExtensionLoop_def setStoreKey_def getStoreKey_def)

lemma afterExtensionLoop_fields [simp]:
  "ssrTransformers (onInitialize_afterExtensionLoop st) = ssrTransformers st"
  "world (onInitialize_afterExtensionLoop st) = world st"
  by (simp_all add: onInitialize_afterExtensionLoop_def setStoreKey_def)

lemma ssrTransformer_pure:
  "ssrTransformers st = map pure_transformer fs \<Longrightarrow>
   ssrTransformer st x = (Inr (fold (\<lambda>f. f) fs x), st)"
  by (simp add: ssrTransformer_def ssrTransformer_loop_pure)

text \<open>
  C1. When the extensions of the initialization pass register the transformers
  \<open>t\<^sub>1, \<dots>, t\<^sub>n\<close> in that order, the pass ends normally, the registry holds
  them in that order, and the published transformer applied to any \<open>x\<close> gives what
  folding the registry over \<open>x\<close> from the left gives; for transformers without
  effects that is \<open>t\<^sub>n (\<dots> (t\<^sub>1 x))\<close>. For two of them the result is
  \<open>t\<^sub>2 (t\<^sub>1 x)\<close>, and when they do not commute there is an \<open>x\<close> where it differs
  from \<open>t\<^sub>1 (t\<^sub>2 x)\<close>.
\<close>

theorem composed_in_registration_order:
  assumes "list_all2 (registers getParameter) extensions ts"
  shows "\<exists>st. initialization_pass getParameter extensions s w = (Inr (), st)
           \<and> ssrTransformers st = ts
           \<and> (\<forall>x. apply_ssrTransformer st x =
                  Some (case spec_fold_registry ts x w of (r, w') \<Rightarrow> (r, st\<lparr>world := w'\<rparr>)))
           \<and> (\<forall>fs x. ts = map pure_transformer fs \<longrightarrow>
                  apply_ssrTransformer st x = Some (Inr (fold (\<lambda>t. t) fs x), st))
           \<and> (\<forall>t1 t2. ts = [pure_transformer t1, pure_transformer t2] \<longrightarrow>
                  (\<forall>x. apply_ssrTransformer st x = Some (Inr (t2 (t1 x)), st))
                  \<and> (t1 \<circ> t2 \<noteq> t2 \<circ> t1 \<longrightarrow>
                       (\<exists>x. apply_ssrTransformer st x \<noteq> Some (Inr (t1 (t2 x)), st))))"
proof -
  define st :: "('a, 'b, 'c) ssr"
    where "st = onInitialize_afterExtensionLoop ((onInitialize s w)\<lparr>ssrTransformers := ts\<rparr>)"
  have loop: "extension_loop getParameter extensions (onInitialize s w)
                = (Inr (), (onInitialize s w)\<lparr>ssrTransformers := ts\<rparr>)"
    using extension_loop_registers [OF assms, of "onInitialize s w"]
    by (simp add: onInitialize_def)
  have pass: "initialization_pass getParameter extensions s w = (Inr (), st)"
    by (simp add: initialization_pass_def loop st_def)
  have reg: "ssrTransformers st = ts" and wd: "world st = w"
    by (simp_all add: st_def onInitialize_def)
  have app: "apply_ssrTransformer st x = Some (ssrTransformer st x)" for x
    by (simp add: apply_ssrTransformer_def st_def)
  have general: "apply_ssrTransformer st x =
      Some (case spec_fold_registry ts x w of (r, w') \<Rightarrow> (r, st\<lparr>world := w'\<rparr>))" for x
    by (simp add: app ssrTransformer_def reg wd ssrTransformer_loop_eq_fold)
  have pure: "apply_ssrTransformer st x = Some (Inr (fold (\<lambda>t. t) fs x), st)"
    if "ts = map pure_transformer fs" for fs x
    using that reg by (simp add: app ssrTransformer_pure)
  have two: "apply_ssrTransformer st x = Some (Inr (t2 (t1 x)), st)"
    if "ts = [pure_transformer t1, pure_transformer t2]" for t1 t2 x
    using pure [of "[t1, t2]" x] that by simp
  have differs: "\<exists>x. apply_ssrTransformer st x \<noteq> Some (Inr (t1 (t2 x)), st)"
    if "ts = [pure_transformer t1, pure_transformer t2]" and "t1 \<circ> t2 \<noteq> t2 \<circ> t1" for t1 t2
  proof -
    from that(2) obtain x where "t1 (t2 x) \<noteq> t2 (t1 x)"
      by (auto simp: fun_eq_iff)
    with two [OF that(1), of x]
    have "apply_ssrTransformer st x \<noteq> Some (Inr (t1 (t2 x)), st)" by simp
    then show ?thesis ..
  qed
  from pass reg general pure two differs show ?thesis by blast
qed


theorem composed_in_registration_order_witness:
  "\<exists>st. initialization_pass no_parameter
           [\<lparr>createSSRTransformer = Some (plain_factory (pure_transformer (\<lambda>x. x + 1))),
             exclude_reactSSR = None\<rparr>,
            \<lparr>createSSRTransformer = Some (plain_factory (pure_transformer (\<lambda>x. 2 * x))),
             exclude_reactSSR = Some False\<rparr>]
           Map.empty () = (Inr (), st :: (unit, unit, int) ssr)
        \<and> apply_ssrTransformer st 3 = Some (Inr 8, st)
        \<and> (\<exists>x. apply_ssrTransformer st x \<noteq> Some (Inr (2 * x + 1), st))"
proof -
  let ?t1 = "\<lambda>x::int. x + 1" and ?t2 = "\<lambda>x::int. 2 * x"
  let ?e1 = "\<lparr>createSSRTransformer = Some (plain_factory (pure_transformer ?t1)),
              exclude_reactSSR = None\<rparr> :: (unit, unit, int, unit) ssr_extension"
  let ?e2 = "\<lparr>createSSRTransformer = Some (plain_factory (pure_transformer ?t2)),
              exclude_reactSSR = Some False\<rparr> :: (unit, unit, int, unit) ssr_extension"
  have reg: "list_all2 (registers no_parameter) [?e1, ?e2]
               [pure_transformer ?t1, pure_transformer ?t2]"
    by (simp add: registers_def plain_factory_def truthy_def)
  have "?t1 (?t2 0) \<noteq> ?t2 (?t1 0)" by simp
  then have nc: "?t1 \<circ> ?t2 \<noteq> ?t2 \<circ> ?t1"
    by (metis comp_apply)
  from composed_in_registration_order [OF reg, of Map.empty "()"] show ?thesis
  proof (elim exE conjE)
    fix st :: "(unit, unit, int) ssr"
    assume pass: "initialization_pass no_parameter [?e1, ?e2] Map.empty () = (Inr (), st)"
    assume two: "\<forall>t1 t2. [pure_transformer ?t1, pure_transformer ?t2]
                     = [pure_transformer t1, pure_transformer t2] \<longrightarrow>
            (\<forall>x. apply_ssrTransformer st x = Some (Inr (t2 (t1 x)), st))
            \<and> (t1 \<circ> t2 \<noteq> t2 \<circ> t1 \<longrightarrow>
                 (\<exists>x. apply_ssrTransformer st x \<noteq> Some (Inr (t1 (t2 x)), st)))"
    have a: "\<forall>x. apply_ssrTransformer st x = Some (Inr (?t2 (?t1 x)), st)" and
      b: "?t1 \<circ> ?t2 \<noteq> ?t2 \<circ> ?t1 \<longrightarrow>
          (\<exists>x. apply_ssrTransformer st x \<noteq> Some (Inr (?t1 (?t2 x)), st))"
      using spec [OF spec [OF two], of ?t1 ?t2] by simp_all
    from a have a3: "apply_ssrTransformer st 3 = Some (Inr 8, st)" by simp
    from b nc have "\<exists>x. apply_ssrTransformer st x \<noteq> Some (Inr (2 * x + 1), st)" by simp
    with pass a3 show ?thesis by blast
  qed
qed


text \<open>
  C2, as stated, fails: nothing in \<open>forEachExtension\<close> looks at whether the
  transformer has been published. On a pass that was finalized with an empty registry,
  a further registration returns normally, and the published transformer, which gave
  \<open>0\<close> on \<open>0\<close> before, gives \<open>1\<close> afterwards.
\<close>

theorem register_after_finalize_counterexample:
  "getStoreKey (onInitialize_afterExtensionLoop (onInitialize Map.empty ()))
     ''ssrTransformer'' = Some SSRTransformerClosure
   \<and> onInitialize_forEachExtension no_parameter
         \<lparr>createSSRTransformer = Some (plain_factory (pure_transformer Suc)),
          exclude_reactSSR = None\<rparr>
         (onInitialize_afterExtensionLoop (onInitialize Map.empty ()))
       = (Inr (), (onInitialize_afterExtensionLoop (onInitialize Map.empty ()))
                    \<lparr>ssrTransformers := [pure_transformer Suc]\<rparr>
                  :: (unit, unit, nat) ssr)
   \<and> map_option fst (apply_ssrTransformer
         (onInitialize_afterExtensionLoop (onInitialize Map.empty ())
            :: (unit, unit, nat) ssr) 0) = Some (Inr 0)
   \<and> map_option fst (apply_ssrTransformer
         ((onInitialize_afterExtensionLoop (onInitialize Map.empty ()))
            \<lparr>ssrTransformers := [pure_transformer Suc]\<rparr> :: (unit, unit, nat) ssr) 0)
       = Some (Inr (Suc 0))"
  by (simp add: onInitialize_forEachExtension_def onInitialize_afterExtensionLoop_def
      onInitialize_def setStoreKey_def getStoreKey_def truthy_def plain_factory_def
      apply_ssrTransformer_def ssrTransformer_def pure_transformer_def)

text \<open>
  C2, amended. After the transformer has been published, a further registration is not
  rejected: \<open>forEachExtension\<close> on an extension that takes part, and whose factory
  returns a transformer \<open>t\<close>, returns normally, appends \<open>t\<close> to the registry and
  leaves the store as it is; the published transformer reads the registry when it is
  called, so from then on it applies the earlier transformers and then \<open>t\<close>.
\<close>

theorem register_after_finalize:
  assumes "getStoreKey st ''ssrTransformer'' = Some SSRTransformerClosure"
    and "createSSRTransformer extension = Some create"
    and "\<not> truthy (exclude_reactSSR extension)"
    and "create (getParameter extension) (world st) = (Inr t, w')"
  shows "\<exists>st'. onInitialize_forEachExtension getParameter extension st = (Inr (), st')
           \<and> ssrTransformers st' = ssrTransformers st @ [t]
           \<and> store st' = store st
           \<and> world st' = w'
           \<and> (\<forall>x. apply_ssrTransformer st' x =
                  Some (case ssrTransformer_loop (ssrTransformers st) x w' of
                          (Inl e, w1) \<Rightarrow> (Inl e, st'\<lparr>world := w1\<rparr>)
                        | (Inr y, w1) \<Rightarrow>
                            (case t y w1 of (r, w2) \<Rightarrow> (r, st'\<lparr>world := w2\<rparr>))))"
proof -
  let ?st' = "st\<lparr>world := w', ssrTransformers := ssrTransformers st @ [t]\<rparr>"
  have step: "onInitialize_forEachExtension getParameter extension st = (Inr (), ?st')"
    using assms(2-4) by (simp add: onInitialize_forEachExtension_def)
  have key: "getStoreKey ?st' ''ssrTransformer'' = Some SSRTransformerClosure"
    using assms(1) by (simp add: getStoreKey_def)
  have app: "apply_ssrTransformer ?st' x =
      Some (case ssrTransformer_loop (ssrTransformers st) x w' of
              (Inl e, w1) \<Rightarrow> (Inl e, ?st'\<lparr>world := w1\<rparr>)
            | (Inr y, w1) \<Rightarrow> (case t y w1 of (r, w2) \<Rightarrow> (r, ?st'\<lparr>world := w2\<rparr>)))" for x
    using key
    by (simp add: apply_ssrTransformer_def ssrTransformer_def ssrTransformer_loop_append
             split: prod.splits sum.splits)
  from step app show ?thesis by simp
qed

theorem register_after_finalize_witness:
  "\<exists>st'. onInitialize_forEachExtension no_parameter
            \<lparr>createSSRTransformer = Some (plain_factory (pure_transformer Suc)),
             exclude_reactSSR = None\<rparr>
            (onInitialize_afterExtensionLoop (onInitialize Map.empty ())) = (Inr (), st')
         \<and> ssrTransformers st' = [pure_transformer Suc :: (unit, unit, nat) SSRTransformer]
         \<and> apply_ssrTransformer st' 0 = Some (Inr (Suc 0), st')"
proof -
  let ?ext = "\<lparr>createSSRTransformer = Some (plain_factory (pure_transformer Suc)),
               exclude_reactSSR = None\<rparr> :: (unit, unit, nat, unit) ssr_extension"
  let ?st = "onInitialize_afterExtensionLoop (onInitialize Map.empty ()) :: (unit, unit, nat) ssr"
  have h1: "getStoreKey ?st ''ssrTransformer'' = Some SSRTransformerClosure" by simp
  have h2: "createSSRTransformer ?ext = Some (plain_factory (pure_transformer Suc))" by simp
  have h3: "\<not> truthy (exclude_reactSSR ?ext)" by (simp add: truthy_def)
  have h4: "plain_factory (pure_transformer Suc) (no_parameter ?ext) (world ?st)
              = (Inr (pure_transformer Suc), ())"
    by (simp add: plain_factory_def)
  from register_after_finalize [where st = ?st and extension = ?ext
      and getParameter = no_parameter and create = "plain_factory (pure_transformer Suc)"
      and t = "pure_transformer Suc" and w' = "()", OF h1 h2 h3 h4]
  show ?thesis
  proof (elim exE conjE)
    fix st' :: "(unit, unit, nat) ssr"
    assume step: "onInitialize_forEachExtension no_parameter ?ext ?st = (Inr (), st')"
    assume reg: "ssrTransformers st' = ssrTransformers ?st @ [pure_transformer Suc]"
    assume app: "\<forall>x. apply_ssrTransformer st' x =
                  Some (case ssrTransformer_loop (ssrTransformers ?st) x () of
                          (Inl e, w1) \<Rightarrow> (Inl e, st'\<lparr>world := w1\<rparr>)
                        | (Inr y, w1) \<Rightarrow>
                            (case pure_transformer Suc y w1 of (r, w2) \<Rightarrow> (r, st'\<lparr>world := w2\<rparr>)))"
    from reg have reg': "ssrTransformers st' = [pure_transformer Suc]"
      by (simp add: onInitialize_def)
    from app have "apply_ssrTransformer st' 0 = Some (Inr (Suc 0), st')"
      by (simp add: onInitialize_def pure_transformer_def)
    with step reg' show ?thesis by blast
  qed
qed


text \<open>
  C3. An extension whose flag \<open>settings.exclude.reactSSR\<close> is set, or which has no
  \<open>createSSRTransformer\<close>, is passed over: \<open>forEachExtension\<close> returns with
  the whole state as it was, so the factory was not called (whatever it would have
  done or thrown) and the registry got no entry. The initialization pass over all
  extensions is the pass over those that take part, the registry has exactly one entry
  for each of these, and the published transformer gives the same on every input.
\<close>

theorem exclusion_honored:
  "(createSSRTransformer extension = None \<or> exclude_reactSSR extension = Some True \<longrightarrow>
      onInitialize_forEachExtension getParameter extension st = (Inr (), st))
   \<and> initialization_pass getParameter extensions s w
       = initialization_pass getParameter (filter contributes extensions) s w
   \<and> (fst (initialization_pass getParameter extensions s w) = Inr () \<longrightarrow>
        length (ssrTransformers (snd (initialization_pass getParameter extensions s w)))
          = length (filter contributes extensions))
   \<and> apply_ssrTransformer (snd (initialization_pass getParameter extensions s w)) x
       = apply_ssrTransformer
           (snd (initialization_pass getParameter (filter contributes extensions) s w)) x"
proof -
  have skip: "onInitialize_forEachExtension getParameter extension st = (Inr (), st)"
    if "createSSRTransformer extension = None \<or> exclude_reactSSR extension = Some True"
    using that by (intro forEachExtension_skip) (auto simp: contributes_def truthy_def)
  have same: "initialization_pass getParameter extensions s w
       = initialization_pass getParameter (filter contributes extensions) s w"
    by (simp add: initialization_pass_def extension_loop_filter)
  have len: "length (ssrTransformers (snd (initialization_pass getParameter extensions s w)))
          = length (filter contributes extensions)"
    if ok: "fst (initialization_pass getParameter extensions s w) = Inr ()"
  proof -
    obtain r st' where loop: "extension_loop getParameter extensions (onInitialize s w) = (r, st')"
      by (cases "extension_loop getParameter extensions (onInitialize s w)")
    with ok have r: "r = Inr ()"
      by (cases r) (simp_all add: initialization_pass_def)
    from extension_loop_length [OF loop [unfolded r]]
    have "length (ssrTransformers st') = length (filter contributes extensions)"
      by (simp add: onInitialize_def)
    with loop r show ?thesis by (simp add: initialization_pass_def)
  qed
  from skip same len show ?thesis by simp
qed

theorem exclusion_honored_witness:
  "onInitialize_forEachExtension no_parameter
     \<lparr>createSSRTransformer = Some (counting_factory (pure_transformer Suc)),
      exclude_reactSSR = Some True\<rparr>
     (onInitialize Map.empty 0)
     = (Inr (), onInitialize Map.empty 0 :: (nat, unit, nat) ssr)
   \<and> initialization_pass no_parameter
        [\<lparr>createSSRTransformer = Some (counting_factory (pure_transformer Suc)),
          exclude_reactSSR = Some True\<rparr>,
         \<lparr>createSSRTransformer = Some (counting_factory (pure_transformer Suc)),
          exclude_reactSSR = None\<rparr>,
         \<lparr>createSSRTransformer = None, exclude_reactSSR = Some False\<rparr>]
        Map.empty 0
     = (initialization_pass no_parameter
        [\<lparr>createSSRTransformer = Some (counting_factory (pure_transformer Suc)),
          exclude_reactSSR = None\<rparr>]
        Map.empty 0 :: (unit + unit) \<times> (nat, unit, nat) ssr)
   \<and> world (snd (initialization_pass no_parameter
        [\<lparr>createSSRTransformer = Some (counting_factory (pure_transformer Suc)),
          exclude_reactSSR = Some True\<rparr>]
        Map.empty 0 :: (unit + unit) \<times> (nat, unit, nat) ssr)) = 0"
proof -
  let ?excluded = "\<lparr>createSSRTransformer = Some (counting_factory (pure_transformer Suc)),
          exclude_reactSSR = Some True\<rparr> :: (nat, unit, nat, unit) ssr_extension"
  let ?member = "\<lparr>createSSRTransformer = Some (counting_factory (pure_transformer Suc)),
          exclude_reactSSR = None\<rparr> :: (nat, unit, nat, unit) ssr_extension"
  let ?plain = "\<lparr>createSSRTransformer = None, exclude_reactSSR = Some False\<rparr>
          :: (nat, unit, nat, unit) ssr_extension"
  have a: "onInitialize_forEachExtension no_parameter ?excluded (onInitialize Map.empty 0)
             = (Inr (), onInitialize Map.empty 0 :: (nat, unit, nat) ssr)"
    using exclusion_honored [of ?excluded no_parameter "onInitialize Map.empty 0"]
    by simp
  have b: "initialization_pass no_parameter [?excluded, ?member, ?plain] Map.empty 0
             = (initialization_pass no_parameter [?member] Map.empty 0
                  :: (unit + unit) \<times> (nat, unit, nat) ssr)"
    using exclusion_honored [of ?excluded no_parameter _ "[?excluded, ?member, ?plain]" Map.empty 0]
    by (simp add: contributes_def truthy_def)
  have c: "world (snd (initialization_pass no_parameter [?excluded] Map.empty 0
             :: (unit + unit) \<times> (nat, unit, nat) ssr)) = 0"
    using exclusion_honored [of ?excluded no_parameter _ "[?excluded]" Map.empty 0]
    by (simp add: contributes_def truthy_def initialization_pass_def onInitialize_def)
  from a b c show ?thesis by blast
qed

text \<open>
  C4. With an empty registry the transformer returns its input and changes nothing:
  it is the identity. That is the case after an initialization pass in which no
  extension takes part.
\<close>

theorem identity_on_empty_registry:
  "(ssrTransformers st = [] \<longrightarrow> ssrTransformer st x = (Inr x, st))
   \<and> ((\<forall>extension \<in> set extensions. \<not> contributes extension) \<longrightarrow>
        initialization_pass getParameter extensions s w
          = (Inr (), onInitialize_afterExtensionLoop (onInitialize s w))
        \<and> apply_ssrTransformer (onInitialize_afterExtensionLoop (onInitialize s w)) y
          = Some (Inr y, onInitialize_afterExtensionLoop (onInitialize s w)))"
proof -
  have a: "ssrTransformer st x = (Inr x, st)" if "ssrTransformers st = []"
    using that by (simp add: ssrTransformer_def)
  have b: "initialization_pass getParameter extensions s w
          = (Inr (), onInitialize_afterExtensionLoop (onInitialize s w))"
    if none: "\<forall>extension \<in> set extensions. \<not> contributes extension"
  proof -
    from none have "filter contributes extensions = []"
      by (simp add: filter_empty_conv)
    with extension_loop_filter [of getParameter extensions "onInitialize s w"]
    have "extension_loop getParameter extensions (onInitialize s w) = (Inr (), onInitialize s w)"
      by simp
    then show ?thesis by (simp add: initialization_pass_def)
  qed
  have c: "apply_ssrTransformer (onInitialize_afterExtensionLoop (onInitialize s w)) y
          = Some (Inr y, onInitialize_afterExtensionLoop (onInitialize s w))"
    by (simp add: apply_ssrTransformer_def ssrTransformer_def onInitialize_def)
  from a b c show ?thesis by blast
qed

theorem identity_on_empty_registry_witness:
  "ssrTransformer (onInitialize Map.empty () :: (unit, unit, nat) ssr) 7
     = (Inr 7, onInitialize Map.empty ())
   \<and> initialization_pass no_parameter
        [\<lparr>createSSRTransformer = None, exclude_reactSSR = None\<rparr>,
         \<lparr>createSSRTransformer = Some (plain_factory (pure_transformer Suc)),
          exclude_reactSSR = Some True\<rparr>]
        Map.empty ()
     = (Inr (), onInitialize_afterExtensionLoop (onInitialize Map.empty ())
                  :: (unit, unit, nat) ssr)
   \<and> apply_ssrTransformer
        (onInitialize_afterExtensionLoop (onInitialize Map.empty ()) :: (unit, unit, nat) ssr) 7
     = Some (Inr 7, onInitialize_afterExtensionLoop (onInitialize Map.empty ()))"
  using identity_on_empty_registry
    [of "onInitialize Map.empty () :: (unit, unit, nat) ssr" 7
        "[\<lparr>createSSRTransformer = None, exclude_reactSSR = None\<rparr>,
          \<lparr>createSSRTransformer = Some (plain_factory (pure_transformer Suc)),
           exclude_reactSSR = Some True\<rparr>]"
        no_parameter Map.empty "()" 7]
  by (simp add: contributes_def truthy_def onInitialize_def)

text \<open>
  C7. When the transformers before \<open>t\<close> in the registry all return and \<open>t\<close> throws
  \<open>e\<close> on the element they produced, the composed transformer ends with that same
  \<open>e\<close>, in the outside state \<open>t\<close> left when it threw: \<open>t\<close> is called once, the
  transformers after it are not called, and no element is returned in place of the
  error.
\<close>

theorem transformer_error_propagates:
  assumes "ssrTransformers st = before @ t # after"
    and "ssrTransformer_loop before x (world st) = (Inr y, w1)"
    and "t y w1 = (Inl e, w2)"
  shows "ssrTransformer st x = (Inl e, st\<lparr>world := w2\<rparr>)"
  using assms by (simp add: ssrTransformer_def ssrTransformer_loop_append)

theorem transformer_error_propagates_witness:
  "ssrTransformer
     \<lparr>store = Map.empty, world = 0,
      ssrTransformers = [pure_transformer Suc, throwing_transformer ''boom'', pure_transformer Suc]\<rparr>
     (5::nat)
   = (Inl ''boom'',
      \<lparr>store = Map.empty, world = Suc 0,
       ssrTransformers = [pure_transformer Suc, throwing_transformer ''boom'', pure_transformer Suc]\<rparr>)"
  using transformer_error_propagates
    [of "\<lparr>store = Map.empty, world = 0,
          ssrTransformers = [pure_transformer Suc, throwing_transformer ''boom'',
                             pure_transformer Suc]\<rparr>"
        "[pure_transformer Suc]" "throwing_transformer ''boom''" "[pure_transformer Suc]"
        5 6 0 "''boom''" "Suc 0"]
  by (simp add: pure_transformer_def throwing_transformer_def)


section \<open>Properties of the helpers extension\<close>

lemma entries_loop_append:
  "entries_loop (xs @ ys) st =
     (case entries_loop xs st of
        (Inl e, st') \<Rightarrow> (Inl e, st')
      | (Inr u, st') \<Rightarrow> entries_loop ys st')"
  by (induction xs st rule: entries_loop.induct)
     (auto simp: throwIfNameNotUnique_def split: prod.splits sum.splits)

lemma view_loop_contributions:
  "view_loop extensions st = entries_loop (contributions extensions) st"
proof (induction extensions arbitrary: st)
  case Nil
  show ?case by (simp add: contributions_def)
next
  case (Cons e es)
  have split: "contributions (e # es) =
      (case createHelpers e of None \<Rightarrow> [] | Some create \<Rightarrow> create ()) @ contributions es"
    by (simp add: contributions_def)
  show ?case
    unfolding split entries_loop_append
    by (auto simp: onView_forEachExtension_def Cons.IH contributions_def
             split: option.splits prod.splits sum.splits)
qed

lemma entries_loop_store: "entries_loop cs st = (r, st') \<Longrightarrow> store st' = store st"
  by (induction cs st rule: entries_loop.induct)
     (auto simp: throwIfNameNotUnique_def split: if_splits)

lemma entries_loop_distinct:
  "distinct (map fst cs) \<Longrightarrow> fst ` set cs \<inter> names st = {} \<Longrightarrow>
   entries_loop cs st =
     (Inr (), st\<lparr>names := names st \<union> fst ` set cs, helpers := helpers st ++ map_of cs\<rparr>)"
proof (induction cs st rule: entries_loop.induct)
  case (1 st)
  show ?case by simp
next
  case (2 name helper rest st)
  let ?st1 = "st\<lparr>names := insert name (names st), helpers := (helpers st)(name \<mapsto> helper)\<rparr>"
  from "2.prems" have fresh: "name \<notin> names st" and notin: "name \<notin> fst ` set rest"
    and d: "distinct (map fst rest)" and disj: "fst ` set rest \<inter> names ?st1 = {}"
    by auto
  have check: "throwIfNameNotUnique name (names st) DUPLICATE_HELPER_NAMES
                 = Inr (insert name (names st))"
    using fresh by (simp add: throwIfNameNotUnique_def)
  from notin have nd: "name \<notin> dom (map_of rest)"
    by (simp add: dom_map_of_conv_image_fst)
  have maps: "(helpers st)(name \<mapsto> helper) ++ map_of rest
                = helpers st ++ map_of ((name, helper) # rest)"
    using nd by (simp add: map_add_upd_left)
  have "entries_loop ((name, helper) # rest) st = entries_loop rest ?st1"
    by (simp add: check)
  also have "\<dots> = (Inr (), ?st1\<lparr>names := names ?st1 \<union> fst ` set rest,
                                  helpers := helpers ?st1 ++ map_of rest\<rparr>)"
    using "2.IH" [OF check d disj] .
  also have "\<dots> = (Inr (), st\<lparr>names := names st \<union> fst ` set ((name, helper) # rest),
                              helpers := helpers st ++ map_of ((name, helper) # rest)\<rparr>)"
    using maps by simp
  finally show ?case .
qed

lemma entries_loop_duplicate:
  "\<not> (distinct (map fst cs) \<and> fst ` set cs \<inter> names st = {}) \<Longrightarrow>
   \<exists>name st'. entries_loop cs st = (Inl (RemirrorError DUPLICATE_HELPER_NAMES (Some name)), st')
     \<and> name \<in> fst ` set cs
     \<and> (name \<in> names st \<or> 2 \<le> count_list (map fst cs) name)"
proof (induction cs st rule: entries_loop.induct)
  case (1 st)
  then show ?case by simp
next
  case (2 name helper rest st)
  show ?case
  proof (cases "name \<in> names st")
    case True
    then show ?thesis by (auto simp: throwIfNameNotUnique_def)
  next
    case False
    let ?st1 = "st\<lparr>names := insert name (names st), helpers := (helpers st)(name \<mapsto> helper)\<rparr>"
    have check: "throwIfNameNotUnique name (names st) DUPLICATE_HELPER_NAMES
                   = Inr (insert name (names st))"
      using False by (simp add: throwIfNameNotUnique_def)
    from "2.prems" False
    have "\<not> (distinct (map fst rest) \<and> fst ` set rest \<inter> names ?st1 = {})"
      by auto
    from "2.IH" [OF check this] obtain n st' where
      res: "entries_loop rest ?st1 = (Inl (RemirrorError DUPLICATE_HELPER_NAMES (Some n)), st')"
      and mem: "n \<in> fst ` set rest"
      and dup: "n \<in> names ?st1 \<or> 2 \<le> count_list (map fst rest) n"
      by blast
    from mem have "n \<in> set (map fst rest)" by simp
    then have "count_list (map fst rest) n \<noteq> 0"
      by (simp only: count_list_0_iff not_not)
    then have pos: "0 < count_list (map fst rest) n" by simp
    from dup pos have "n \<in> names st \<or> 2 \<le> count_list (map fst ((name, helper) # rest)) n"
      by auto
    with res mem check show ?thesis by auto
  qed
qed


lemma view_loop_store: "view_loop extensions st = (r, st') \<Longrightarrow> store st' = store st"
  by (simp add: view_loop_contributions entries_loop_store)

text \<open>
  C5. When some name occurs twice among the helpers the extensions contribute, the
  pass over the extensions ends with the error \<open>DUPLICATE_HELPER_NAMES\<close> carrying a
  name that occurs at least twice, and the store is not touched. When the names are
  pairwise distinct the pass ends normally, every contributed helper is in the
  \<open>helpers\<close> object under its name, the object has no other entries, and the store
  key \<open>helpers\<close> refers to it.
\<close>

theorem duplicate_helper_names:
  "(\<not> distinct (map fst (contributions extensions)) \<longrightarrow>
      (\<exists>name st. view_pass extensions s
                   = (Inl (RemirrorError DUPLICATE_HELPER_NAMES (Some name)), st)
         \<and> 2 \<le> count_list (map fst (contributions extensions)) name
         \<and> store st = s))
   \<and> (distinct (map fst (contributions extensions)) \<longrightarrow>
      (\<exists>st. view_pass extensions s = (Inr (), st)
         \<and> (\<forall>(name, helper) \<in> set (contributions extensions). helpers st name = Some helper)
         \<and> dom (helpers st) = fst ` set (contributions extensions)
         \<and> getStoreKey st ''helpers'' = Some HelpersObject))"
proof (intro conjI impI)
  let ?cs = "contributions extensions"
  assume "\<not> distinct (map fst ?cs)"
  then have "\<not> (distinct (map fst ?cs) \<and> fst ` set ?cs \<inter> names (onView s :: 'a view) = {})"
    by simp
  from entries_loop_duplicate [OF this] obtain name and st :: "'a view" where
    res: "entries_loop ?cs (onView s) = (Inl (RemirrorError DUPLICATE_HELPER_NAMES (Some name)), st)"
    and dup: "name \<in> names (onView s :: 'a view) \<or> 2 \<le> count_list (map fst ?cs) name"
    by blast
  from dup have two: "2 \<le> count_list (map fst ?cs) name"
    by (simp add: onView_def)
  from entries_loop_store [OF res] have st: "store st = s"
    by (simp add: onView_def)
  from res have "view_pass extensions s
                   = (Inl (RemirrorError DUPLICATE_HELPER_NAMES (Some name)), st)"
    by (simp add: view_pass_def view_loop_contributions)
  with two st show "\<exists>name st. view_pass extensions s
                   = (Inl (RemirrorError DUPLICATE_HELPER_NAMES (Some name)), st)
         \<and> 2 \<le> count_list (map fst ?cs) name \<and> store st = s"
    by blast
next
  let ?cs = "contributions extensions"
  let ?st = "onView_afterExtensionLoop
               ((onView s)\<lparr>names := fst ` set ?cs, helpers := map_of ?cs\<rparr>) :: 'a view"
  assume d: "distinct (map fst ?cs)"
  then have "entries_loop ?cs (onView s)
               = (Inr (), (onView s)\<lparr>names := fst ` set ?cs, helpers := map_of ?cs\<rparr>)"
    using entries_loop_distinct [of ?cs "onView s"] by (simp add: onView_def)
  then have pass: "view_pass extensions s = (Inr (), ?st)"
    by (simp add: view_pass_def view_loop_contributions)
  have h: "helpers ?st = map_of ?cs"
    by (simp add: onView_afterExtensionLoop_def setStoreKey_def)
  from d h have all: "\<forall>(name, helper) \<in> set ?cs. helpers ?st name = Some helper"
    by auto
  from h have dm: "dom (helpers ?st) = fst ` set ?cs"
    by (simp add: dom_map_of_conv_image_fst)
  have key: "getStoreKey ?st ''helpers'' = Some HelpersObject"
    by (simp add: onView_afterExtensionLoop_def setStoreKey_def getStoreKey_def)
  from pass all dm key
  show "\<exists>st. view_pass extensions s = (Inr (), st)
         \<and> (\<forall>(name, helper) \<in> set ?cs. helpers st name = Some helper)
         \<and> dom (helpers st) = fst ` set ?cs
         \<and> getStoreKey st ''helpers'' = Some HelpersObject"
    by blast
qed

theorem duplicate_helper_names_witness:
  "(\<exists>st. view_pass
       [\<lparr>createHelpers = Some (\<lambda>u. [(''isActive'', 10), (''getText'', 20)])\<rparr>,
        \<lparr>createHelpers = None\<rparr>,
        \<lparr>createHelpers = Some (\<lambda>u. [(''getText'', 30)])\<rparr>] Map.empty
      = (Inl (RemirrorError DUPLICATE_HELPER_NAMES (Some ''getText'')), st :: nat view))
   \<and> (\<exists>st. view_pass
       [\<lparr>createHelpers = Some (\<lambda>u. [(''isActive'', 10), (''getText'', 20)])\<rparr>,
        \<lparr>createHelpers = None\<rparr>,
        \<lparr>createHelpers = Some (\<lambda>u. [(''getHTML'', 30)])\<rparr>] Map.empty
      = (Inr (), st :: nat view)
      \<and> helpers st ''isActive'' = Some 10 \<and> helpers st ''getText'' = Some 20
      \<and> helpers st ''getHTML'' = Some 30)"
proof
  let ?exts = "[\<lparr>createHelpers = Some (\<lambda>u. [(''isActive'', 10), (''getText'', 20)])\<rparr>,
        \<lparr>createHelpers = None\<rparr>,
        \<lparr>createHelpers = Some (\<lambda>u. [(''getText'', 30)])\<rparr>] :: nat helpers_extension list"
  have cs: "contributions ?exts = [(''isActive'', 10), (''getText'', 20), (''getText'', 30)]"
    by (simp add: contributions_def)
  have nd: "\<not> distinct (map fst (contributions ?exts))"
    by (simp add: cs)
  from duplicate_helper_names [of ?exts Map.empty] nd obtain name and st :: "nat view" where
    res: "view_pass ?exts Map.empty = (Inl (RemirrorError DUPLICATE_HELPER_NAMES (Some name)), st)"
    and two: "2 \<le> count_list (map fst (contributions ?exts)) name"
    by blast
  from two have "name = ''getText''"
    by (simp add: cs split: if_splits)
  with res show "\<exists>st. view_pass ?exts Map.empty
      = (Inl (RemirrorError DUPLICATE_HELPER_NAMES (Some ''getText'')), st :: nat view)"
    by blast
next
  let ?exts = "[\<lparr>createHelpers = Some (\<lambda>u. [(''isActive'', 10), (''getText'', 20)])\<rparr>,
        \<lparr>createHelpers = None\<rparr>,
        \<lparr>createHelpers = Some (\<lambda>u. [(''getHTML'', 30)])\<rparr>] :: nat helpers_extension list"
  have cs: "contributions ?exts = [(''isActive'', 10), (''getText'', 20), (''getHTML'', 30)]"
    by (simp add: contributions_def)
  have d: "distinct (map fst (contributions ?exts))"
    by (simp add: cs)
  from duplicate_helper_names [of ?exts Map.empty] d obtain st :: "nat view" where
    res: "view_pass ?exts Map.empty = (Inr (), st)"
    and all: "\<forall>(name, helper) \<in> set (contributions ?exts). helpers st name = Some helper"
    by blast
  from all have "helpers st ''isActive'' = Some 10 \<and> helpers st ''getText'' = Some 20
      \<and> helpers st ''getHTML'' = Some 30"
    by (simp add: cs)
  with res show "\<exists>st. view_pass ?exts Map.empty = (Inr (), st :: nat view)
      \<and> helpers st ''isActive'' = Some 10 \<and> helpers st ''getText'' = Some 20
      \<and> helpers st ''getHTML'' = Some 30"
    by blast
qed

lemma helpers_method_unset:
  "getStoreKey st ''helpers'' = None \<Longrightarrow>
   helpers_method st = Inl (RemirrorError HELPERS_CALLED_IN_OUTER_SCOPE None)"
  by (simp add: helpers_method_def invariant_def truthy_value_def)

text \<open>
  C6. As long as the store key \<open>helpers\<close> has not been set, the manager method
  \<open>helpers\<close> fails with the error \<open>HELPERS_CALLED_IN_OUTER_SCOPE\<close> and returns
  nothing; that is so at every point of the loop over the extensions when the store
  had no such key at the start, however many helpers have been gathered. After
  \<open>afterExtensionLoop\<close> has set the key, the method returns the stored reference to
  the \<open>helpers\<close> object.
\<close>

theorem helpers_outside_scope:
  "(getStoreKey st ''helpers'' = None \<longrightarrow>
      helpers_method st = Inl (RemirrorError HELPERS_CALLED_IN_OUTER_SCOPE None))
   \<and> (s ''helpers'' = None \<and> view_loop extensions (onView s) = (r, st1) \<longrightarrow>
      helpers_method st1 = Inl (RemirrorError HELPERS_CALLED_IN_OUTER_SCOPE None))
   \<and> helpers_method (onView_afterExtensionLoop st2) = Inr (Some HelpersObject)
   \<and> getStoreKey (onView_afterExtensionLoop st2) ''helpers'' = Some HelpersObject"
proof -
  have a: "helpers_method st = Inl (RemirrorError HELPERS_CALLED_IN_OUTER_SCOPE None)"
    if "getStoreKey st ''helpers'' = None"
    using that by (rule helpers_method_unset)
  have b: "helpers_method st1 = Inl (RemirrorError HELPERS_CALLED_IN_OUTER_SCOPE None)"
    if "s ''helpers'' = None" and "view_loop extensions (onView s) = (r, st1)"
  proof -
    from view_loop_store [OF that(2)] that(1) have "getStoreKey st1 ''helpers'' = None"
      by (simp add: getStoreKey_def onView_def)
    then show ?thesis by (rule helpers_method_unset)
  qed
  have c: "getStoreKey (onView_afterExtensionLoop st2) ''helpers'' = Some HelpersObject"
    by (simp add: onView_afterExtensionLoop_def setStoreKey_def getStoreKey_def)
  then have d: "helpers_method (onView_afterExtensionLoop st2) = Inr (Some HelpersObject)"
    by (simp add: helpers_method_def invariant_def truthy_value_def)
  from a b c d show ?thesis by blast
qed

theorem helpers_outside_scope_witness:
  "helpers_method (onView Map.empty :: nat view)
     = Inl (RemirrorError HELPERS_CALLED_IN_OUTER_SCOPE None)
   \<and> helpers_method (snd (view_loop
        [\<lparr>createHelpers = Some (\<lambda>u. [(''isActive'', 10 :: nat)])\<rparr>] (onView Map.empty)))
     = Inl (RemirrorError HELPERS_CALLED_IN_OUTER_SCOPE None)
   \<and> helpers_method (onView_afterExtensionLoop (onView Map.empty :: nat view))
     = Inr (Some HelpersObject)"
proof -
  let ?exts = "[\<lparr>createHelpers = Some (\<lambda>u. [(''isActive'', 10 :: nat)])\<rparr>]"
  obtain r st1 where loop: "view_loop ?exts (onView Map.empty) = (r, st1)"
    by (cases "view_loop ?exts (onView Map.empty)")
  have k: "getStoreKey (onView Map.empty :: nat view) ''helpers'' = None"
    by (simp add: getStoreKey_def onView_def)
  from helpers_outside_scope
    [of "onView Map.empty :: nat view" Map.empty ?exts r st1 "onView Map.empty :: nat view"]
    k loop
  show ?thesis by simp
qed

end
